theory Spec2Isabelle
  imports
    Main
    "HOL-Library.AList"
    "HOL-Library.Char_ord"
    "HOL-Library.List_Lexorder"
    "HOL-Library.Multiset"
    "HOL-Library.Log_Nat"
begin

section \<open>Values of the generator\<close>

text \<open>
  The exceptions that \<^verbatim>\<open>generate.py\<close> can raise on the paths embedded here:
  a missing dictionary key, \<^verbatim>\<open>&\<close> applied to a dictionary, a list index out of range
  and unbounded recursion.
\<close>

datatype py_error = KeyError | TypeError | IndexError | RuntimeError

text \<open>
  A value of a final index is either a Python \<^verbatim>\<open>set\<close> of header names or a
  \<^verbatim>\<open>basestring\<close> naming the canonical symbol; \<^verbatim>\<open>isinstance(hdrs, basestring)\<close>
  is the case distinction on this type.
\<close>

datatype entry_value = Headers "string set" | Redirect string

type_synonym entry = "string \<times> entry_value"

section \<open>The tree serializer (\<^verbatim>\<open>make_happy_tree\<close>)\<close>

text \<open>\<^verbatim>\<open>sep.join(xs)\<close> on a list of strings.\<close>

fun join_str :: "string \<Rightarrow> string list \<Rightarrow> string" where
  "join_str sep [] = []"
| "join_str sep [x] = x"
| "join_str sep (x # y # ys) = x @ sep @ join_str sep (y # ys)"

text \<open>
  The first \<^verbatim>\<open>out.write\<close> of a node: \<^verbatim>\<open>(("name" . canonical)\n\<close> for a string value,
  \<^verbatim>\<open>(("name" h1 h2)\n\<close> for a set. The order in which Python iterates over the set is
  not fixed by the language; it is the parameter \<open>elems\<close>.
\<close>

definition entry_text :: "(string set \<Rightarrow> string list) \<Rightarrow> entry \<Rightarrow> string" where
  "entry_text elems e =
     (case snd e of
        Redirect canonical_name \<Rightarrow>
          ''(('' @ [CHR 0x22] @ fst e @ [CHR 0x22] @ '' . '' @ canonical_name @ '')'' @ [CHR 0x0A]
      | Headers hdrs \<Rightarrow>
          ''(('' @ [CHR 0x22] @ fst e @ [CHR 0x22] @ '' '' @ join_str '' '' (elems hdrs)
            @ '')'' @ [CHR 0x0A])"

text \<open>
  \<^verbatim>\<open>do_node(start, end)\<close>, returning what it writes to \<^verbatim>\<open>out\<close>. The indices are
  natural numbers, \<^verbatim>\<open>/\<close> is Python 2 integer division. With \<^verbatim>\<open>end < start\<close> the
  Python recursion never reaches \<^verbatim>\<open>start == end\<close> and ends in an exception; an index
  beyond the list raises as well.
\<close>

function do_node ::
  "(string set \<Rightarrow> string list) \<Rightarrow> entry list \<Rightarrow> nat \<Rightarrow> nat \<Rightarrow> py_error + string" where
  "do_node elems syms start end =
     (if start = end then Inr ''nil''
      else if end < start then Inl RuntimeError
      else let pivot = start + (end - start) div 2 in
        if length syms \<le> pivot then Inl IndexError
        else case do_node elems syms start pivot of
               Inl e \<Rightarrow> Inl e
             | Inr l \<Rightarrow>
                 (case do_node elems syms (pivot + 1) end of
                    Inl e \<Rightarrow> Inl e
                  | Inr r \<Rightarrow> Inr (entry_text elems (syms ! pivot) @ l @ '' . '' @ r @ '')'')))"
  by pat_completeness auto
termination
  by (relation "measure (\<lambda>(elems, syms, start, end). end - start)") auto

declare do_node.simps [simp del]

text \<open>
  \<^verbatim>\<open>make_happy_tree(out, syms)\<close>: sort the pairs by name (Python's sort is stable, as
  \<open>sort_key\<close> is), write the quote, write the tree. The result is the new content of
  \<^verbatim>\<open>out\<close>.
\<close>

definition make_happy_tree ::
  "(string set \<Rightarrow> string list) \<Rightarrow> string \<Rightarrow> entry list \<Rightarrow> py_error + string" where
  "make_happy_tree elems out syms =
     (let syms = sort_key fst syms in
      case do_node elems syms 0 (length syms) of
        Inl e \<Rightarrow> Inl e
      | Inr s \<Rightarrow> Inr (out @ [CHR 0x27] @ s))"








section \<open>Strings and dictionaries\<close>

text \<open>\<^verbatim>\<open>s.startswith(p)\<close>, \<^verbatim>\<open>sub in s\<close> and \<^verbatim>\<open>s.rindex(sub)\<close> (\<open>None\<close> is its ValueError).\<close>

definition startswith :: "string \<Rightarrow> string \<Rightarrow> bool" where
  "startswith s p = (take (length p) s = p)"

fun contains :: "string \<Rightarrow> string \<Rightarrow> bool" where
  "contains sub [] = (sub = [])"
| "contains sub (c # s) = (startswith (c # s) sub \<or> contains sub s)"

fun rindex :: "string \<Rightarrow> string \<Rightarrow> nat option" where
  "rindex [] sub = (if sub = [] then Some 0 else None)"
| "rindex (c # s) sub =
     (case rindex s sub of
        Some i \<Rightarrow> Some (Suc i)
      | None \<Rightarrow> if startswith (c # s) sub then Some 0 else None)"

text \<open>\<^verbatim>\<open>header.replace('&lt;', '')\<close>: every occurrence, from the left, is removed.\<close>

fun replace_lt :: "string \<Rightarrow> string" where
  "replace_lt [] = []"
| "replace_lt (c # s) =
     (if startswith (c # s) ''&lt;'' then replace_lt (drop 3 s) else c # replace_lt s)"

text \<open>
  A Python \<^verbatim>\<open>dict\<close> is a list of pairs with pairwise different keys: \<open>map_of\<close> looks a
  key up, \<open>dict_set\<close> is the assignment \<^verbatim>\<open>d[k] = v\<close>. Python 2 does not fix the order in
  which a dictionary is iterated; \<open>dict_items ord d\<close> is \<^verbatim>\<open>d.items()\<close> in the order
  that \<open>ord\<close> gives to the keys.
\<close>

type_synonym ('k, 'v) dict = "('k \<times> 'v) list"

definition dict_set :: "('k, 'v) dict \<Rightarrow> 'k \<Rightarrow> 'v \<Rightarrow> ('k, 'v) dict" where
  "dict_set d k v = AList.update k v d"

definition dict_items :: "('k list \<Rightarrow> 'k list) \<Rightarrow> ('k, 'v) dict \<Rightarrow> ('k \<times> 'v) list" where
  "dict_items ord d = List.map_filter (\<lambda>k. map_option (Pair k) (map_of d k)) (ord (map fst d))"

definition dict_values :: "('k list \<Rightarrow> 'k list) \<Rightarrow> ('k, 'v) dict \<Rightarrow> 'v list" where
  "dict_values ord d = map snd (dict_items ord d)"

text \<open>\<^verbatim>\<open>dict(pairs)\<close>: later pairs overwrite earlier ones.\<close>

definition dict_of :: "('k \<times> 'v) list \<Rightarrow> ('k, 'v) dict" where
  "dict_of ps = foldl (\<lambda>d (k, v). dict_set d k v) [] ps"

section \<open>The shadow table\<close>

definition shadows :: "(string, string) dict" where
  "shadows =
    [(''assert.h'', ''cassert''),
     (''complex.h'', ''ccomplex''),
     (''ctype.h'', ''cctype''),
     (''errno.h'', ''cerrno''),
     (''fenv.h'', ''cfenv''),
     (''float.h'', ''cfloat''),
     (''inttypes.h'', ''cinttypes''),
     (''limits.h'', ''climits''),
     (''locale.h'', ''clocale''),
     (''math.h'', ''cmath''),
     (''setjmp.h'', ''csetjmp''),
     (''signal.h'', ''csignal''),
     (''stdalign.h'', ''cstdalign''),
     (''stdarg.h'', ''cstdarg''),
     (''stdbool.h'', ''cstdbool''),
     (''stddef.h'', ''cstddef''),
     (''stdint.h'', ''cstdint''),
     (''stdio.h'', ''cstdio''),
     (''stdlib.h'', ''cstdlib''),
     (''string.h'', ''cstring''),
     (''tgmath.h'', ''ctgmath''),
     (''time.h'', ''ctime''),
     (''wchar.h'', ''cwchar''),
     (''wctype.h'', ''cwctype'')]"

text \<open>\<^verbatim>\<open>shadows.get(hdr, hdr)\<close> and \<^verbatim>\<open>set(shadows.get(hdr, hdr) for hdr in hdrs)\<close>.\<close>

definition shadow :: "string \<Rightarrow> string" where
  "shadow hdr = (case map_of shadows hdr of Some s \<Rightarrow> s | None \<Rightarrow> hdr)"

definition shadow_set :: "string set \<Rightarrow> string set" where
  "shadow_set hdrs = shadow ` hdrs"

text \<open>\<^verbatim>\<open>hdrs & set(shadows.keys())\<close>, as the condition of an \<^verbatim>\<open>if\<close>: the set is not empty.\<close>

definition shadowed :: "string set \<Rightarrow> bool" where
  "shadowed hdrs = (hdrs \<inter> set (map fst shadows) \<noteq> {})"

section \<open>Diagnostics and the environment\<close>

text \<open>
  What the generator prints to \<^verbatim>\<open>sys.stderr\<close>, one constructor for each
  \<^verbatim>\<open>print >>sys.stderr\<close> of the source, with the values it formats.
\<close>

datatype diag =
    NoIncludes string string
  | ManConflict string "string set" "string set"
  | MissingHtml string
  | NoHeaderFound string
  | SalvageC string "string set"
  | SalvageMan string "string set"
  | Discard string string
  | Conflict string

text \<open>
  What the generator takes from outside. The three regular expressions are given by what
  \<^verbatim>\<open>re.search(...).group(1)\<close> returns (\<open>None\<close>: no match): \<open>re_include\<close> for
  \<^verbatim>\<open>#include <(.*?)>\<close>, \<open>re_func\<close> for \<^verbatim>\<open>BI? ".+ \*?([a-zA-Z_0-9]+)\(\<close> and
  \<open>re_header\<close> for \<^verbatim>\<open>Defined in header.+?;(.+?)&\<close>. \<open>read_html\<close> is the file system
  under \<^verbatim>\<open>htmldir\<close>: the content of a file, \<open>None\<close> where \<^verbatim>\<open>os.path.exists\<close> is false.
  \<open>keys_order\<close> and \<open>links_order\<close> are the orders in which Python iterates over the
  dictionaries keyed by names and by links.
\<close>

record env =
  re_include :: "string \<Rightarrow> string option"
  re_func :: "string \<Rightarrow> string option"
  re_header :: "string \<Rightarrow> string option"
  read_html :: "string \<Rightarrow> string option"
  keys_order :: "string list \<Rightarrow> string list"
  links_order :: "string option list \<Rightarrow> string option list"

section \<open>Man pages (\<^verbatim>\<open>parse_man\<close> and the first loop of \<^verbatim>\<open>main\<close>)\<close>

text \<open>
  \<^verbatim>\<open>parse_man(path, text)\<close> from the set \<open>includes\<close> collected so far: the sequence of
  what the generator does, a pair it yields (\<open>Inr\<close>) or a line it prints (\<open>Inl\<close>). The
  \<^verbatim>\<open>continue\<close> after the print skips the test for \<^verbatim>\<open>DESCRIPTION\<close>.
\<close>

definition add_include :: "env \<Rightarrow> string \<Rightarrow> string set \<Rightarrow> string set" where
  "add_include E line includes =
     (case re_include E line of Some h \<Rightarrow> insert h includes | None \<Rightarrow> includes)"

fun parse_man ::
  "env \<Rightarrow> string \<Rightarrow> string set \<Rightarrow> string list \<Rightarrow> (diag + string \<times> string set) list" where
  "parse_man E path includes [] = []"
| "parse_man E path includes (line # text) =
     (let includes =
            (if startswith line ''.B '' \<or> startswith line (''.BR '' @ [CHR 0x22] @ ''#inc'')
             then add_include E line includes else includes);
          includes =
            (if startswith line (''.BR '' @ [CHR 0x22] @ ''#inc'')
             then add_include E line includes else includes);
          rest = (if contains ''DESCRIPTION'' line then [] else parse_man E path includes text)
      in case (if startswith line ''.B'' then re_func E line else None) of
           Some func \<Rightarrow>
             if includes = {} then Inl (NoIncludes func path) # parse_man E path includes text
             else Inr (func, includes) # rest
         | None \<Rightarrow> rest)"

text \<open>
  The body of the first loop of \<^verbatim>\<open>main\<close> for one pair \<^verbatim>\<open>(func, includes)\<close>, on the
  table \<^verbatim>\<open>man_syms\<close> and the lines printed so far.
\<close>

definition man_add ::
  "(string, string set) dict \<times> diag list \<Rightarrow> string \<times> string set
   \<Rightarrow> (string, string set) dict \<times> diag list" where
  "man_add st item =
     (case st of (man_syms, err) \<Rightarrow>
      case item of (func, includes) \<Rightarrow>
        (case map_of man_syms func of
           Some stored \<Rightarrow>
             if includes \<noteq> stored then (man_syms, err @ [ManConflict func stored includes])
             else (man_syms, err)
         | None \<Rightarrow> (dict_set man_syms func includes, err)))"

definition man_event ::
  "(string, string set) dict \<times> diag list \<Rightarrow> diag + string \<times> string set
   \<Rightarrow> (string, string set) dict \<times> diag list" where
  "man_event st ev =
     (case ev of
        Inl d \<Rightarrow> (fst st, snd st @ [d])
      | Inr item \<Rightarrow> man_add st item)"

text \<open>
  The whole first loop: \<open>man_events\<close> is what the generators of all pages
  \<^verbatim>\<open>itertools.chain(get_mans(3), get_mans(2))\<close> do, in order, and \<open>man_loop\<close> runs the
  loop body over it, from the empty table.
\<close>

definition man_events ::
  "env \<Rightarrow> (string \<times> string list) list \<Rightarrow> (diag + string \<times> string set) list" where
  "man_events E pages = concat (map (\<lambda>(path, text). parse_man E path {} text) pages)"

definition man_loop ::
  "(diag + string \<times> string set) list \<Rightarrow> (string, string set) dict \<times> diag list" where
  "man_loop evs = foldl man_event ([], []) evs"

definition load_mans ::
  "env \<Rightarrow> (string \<times> string list) list \<Rightarrow> (string, string set) dict \<times> diag list" where
  "load_mans E pages = man_loop (man_events E pages)"

section \<open>The symbol catalogs (second to fifth loop of \<^verbatim>\<open>main\<close>)\<close>

text \<open>
  A child of the root of an index document: its tag and its attributes
  (\<^verbatim>\<open>child.tag\<close>, \<^verbatim>\<open>child.attrib\<close>).
\<close>

record xml_node =
  tag :: string
  attrib :: "(string, string) dict"

text \<open>
  The dictionary \<^verbatim>\<open>sym\<close> that \<^verbatim>\<open>main\<close> builds for a child. \<open>None\<close> in \<open>sym_alias\<close>
  and \<open>sym_link\<close> is Python's \<^verbatim>\<open>None\<close> (\<^verbatim>\<open>attrib.get\<close> of a missing attribute); \<open>None\<close>
  in \<open>sym_header\<close> is the missing key \<^verbatim>\<open>'header'\<close>. The symbols of the C index have no
  key \<^verbatim>\<open>'alias'\<close>, and nothing reads it there.
\<close>

record sym =
  sym_name :: string
  sym_type :: string
  sym_alias :: "string option"
  sym_link :: "string option"
  sym_header :: "string option"

text \<open>
  The dictionaries \<^verbatim>\<open>sym\<close> are objects shared between the tables \<^verbatim>\<open>c_syms\<close>,
  \<^verbatim>\<open>cpp_syms\<close> and the lists in \<^verbatim>\<open>links\<close>, and later loops assign to their keys. The
  store \<open>st_heap\<close> holds the objects; the tables hold addresses, which are positions in
  the store. A new object is appended.
\<close>

record catalog =
  st_heap :: "sym list"
  st_links :: "(string option, nat list) dict"
  st_c_syms :: "(string, nat) dict"
  st_cpp_syms :: "(string, nat) dict"

text \<open>A loop whose body may raise: the first exception ends it.\<close>

fun for_each :: "('s \<Rightarrow> 'a \<Rightarrow> py_error + 's) \<Rightarrow> 'a list \<Rightarrow> 's \<Rightarrow> py_error + 's" where
  "for_each body [] st = Inr st"
| "for_each body (x # xs) st =
     (case body st x of Inl e \<Rightarrow> Inl e | Inr st' \<Rightarrow> for_each body xs st')"

text \<open>\<^verbatim>\<open>links.setdefault(link, []).append(sym)\<close>.\<close>

definition links_add ::
  "(string option, nat list) dict \<Rightarrow> string option \<Rightarrow> nat \<Rightarrow> (string option, nat list) dict" where
  "links_add links lnk a =
     dict_set links lnk ((case map_of links lnk of Some l \<Rightarrow> l | None \<Rightarrow> []) @ [a])"

text \<open>
  The body of the loop over the C index. \<^verbatim>\<open>child.attrib['name']\<close> raises KeyError
  when the attribute is missing.
\<close>

definition load_c_node :: "catalog \<Rightarrow> xml_node \<Rightarrow> py_error + catalog" where
  "load_c_node st child =
     (case map_of (attrib child) ''link'' of
        None \<Rightarrow> Inr st
      | Some lnk \<Rightarrow>
          if \<not> contains ''/'' lnk then Inr st
          else if startswith lnk ''cpp/'' then Inr st
          else
            (case map_of (attrib child) ''name'' of
               None \<Rightarrow> Inl KeyError
             | Some nm \<Rightarrow>
                 if contains ''('' nm then Inr st
                 else
                   let a = length (st_heap st);
                       s = \<lparr>sym_name = nm, sym_type = tag child, sym_alias = None,
                            sym_link = Some lnk, sym_header = None\<rparr>
                   in Inr (st\<lparr>st_heap := st_heap st @ [s],
                              st_c_syms := dict_set (st_c_syms st) nm a,
                              st_links := links_add (st_links st) (Some lnk) a\<rparr>)))"

text \<open>The body of the loop over the C++ index.\<close>

definition load_cpp_node :: "catalog \<Rightarrow> xml_node \<Rightarrow> py_error + catalog" where
  "load_cpp_node st child =
     (case map_of (attrib child) ''name'' of
        None \<Rightarrow> Inl KeyError
      | Some nm \<Rightarrow>
          if contains ''('' nm then Inr st
          else
            let a = length (st_heap st);
                s = \<lparr>sym_name = nm, sym_type = tag child,
                     sym_alias = map_of (attrib child) ''alias'',
                     sym_link = map_of (attrib child) ''link'', sym_header = None\<rparr>
            in Inr (st\<lparr>st_heap := st_heap st @ [s],
                       st_cpp_syms := dict_set (st_cpp_syms st) nm a\<rparr>))"

text \<open>
  The body of the second pass over the C++ symbols, for the object at address \<open>a\<close>:
  \<^verbatim>\<open>not sym['alias']\<close> holds for \<^verbatim>\<open>None\<close> and for the empty string;
  \<^verbatim>\<open>cpp_syms[sym['alias']]\<close> raises KeyError; then the two assignments, in order.
\<close>

definition resolve_alias :: "catalog \<Rightarrow> nat \<Rightarrow> py_error + catalog" where
  "resolve_alias st a =
     (case sym_alias (st_heap st ! a) of
        None \<Rightarrow> Inr st
      | Some al \<Rightarrow>
          if al = [] then Inr st
          else
            (case map_of (st_cpp_syms st) al of
               None \<Rightarrow> Inl KeyError
             | Some other \<Rightarrow>
                 let heap1 = (st_heap st)
                       [a := (st_heap st ! a)
                          \<lparr>sym_type := sym_type (st_heap st ! a) @ ''('' @
                                       sym_type (st_heap st ! other) @ '')''\<rparr>];
                     heap2 = heap1[a := (heap1 ! a)\<lparr>sym_link := sym_link (heap1 ! other)\<rparr>]
                 in Inr (st\<lparr>st_heap := heap2\<rparr>)))"

text \<open>The body of the third pass: the backlink of the object at address \<open>a\<close>.\<close>

definition add_backlink :: "catalog \<Rightarrow> nat \<Rightarrow> catalog" where
  "add_backlink st a = st\<lparr>st_links := links_add (st_links st) (sym_link (st_heap st ! a)) a\<rparr>"

definition empty_catalog :: catalog where
  "empty_catalog = \<lparr>st_heap = [], st_links = [], st_c_syms = [], st_cpp_syms = []\<rparr>"

text \<open>
  The three loops and the two passes, from empty tables. \<^verbatim>\<open>cpp_syms.values()\<close> is the
  list of the addresses in the order of iteration.
\<close>

definition load_catalogs :: "env \<Rightarrow> xml_node list \<Rightarrow> xml_node list \<Rightarrow> py_error + catalog" where
  "load_catalogs E xml_c xml_cpp =
     (case for_each load_c_node xml_c empty_catalog of
        Inl e \<Rightarrow> Inl e
      | Inr st1 \<Rightarrow>
     (case for_each load_cpp_node xml_cpp st1 of
        Inl e \<Rightarrow> Inl e
      | Inr st2 \<Rightarrow>
     (case for_each resolve_alias (dict_values (keys_order E) (st_cpp_syms st2)) st2 of
        Inl e \<Rightarrow> Inl e
      | Inr st3 \<Rightarrow>
          Inr (foldl add_backlink st3 (dict_values (keys_order E) (st_cpp_syms st3))))))"

section \<open>Headers of the detail pages (sixth loop of \<^verbatim>\<open>main\<close>)\<close>

text \<open>\<^verbatim>\<open>'%s' % link\<close>, where the link may be \<^verbatim>\<open>None\<close>.\<close>

definition pystr :: "string option \<Rightarrow> string" where
  "pystr lnk = (case lnk of None \<Rightarrow> ''None'' | Some s \<Rightarrow> s)"

definition set_header :: "string \<Rightarrow> sym list \<Rightarrow> nat \<Rightarrow> sym list" where
  "set_header header heap a = heap[a := (heap ! a)\<lparr>sym_header := Some header\<rparr>]"

text \<open>The body of the loop over \<^verbatim>\<open>links.items()\<close>, on the store and the lines printed.\<close>

definition resolve_link ::
  "env \<Rightarrow> string \<Rightarrow> sym list \<times> diag list \<Rightarrow> string option \<times> nat list
   \<Rightarrow> sym list \<times> diag list" where
  "resolve_link E htmldir st item =
     (case st of (heap, err) \<Rightarrow>
      case item of (lnk, syms) \<Rightarrow>
        let htmlfile = htmldir @ ''/'' @ pystr lnk @ ''.html'' in
        (case read_html E htmlfile of
           None \<Rightarrow> (heap, err @ [MissingHtml htmlfile])
         | Some html \<Rightarrow>
             (case re_header E html of
                Some g \<Rightarrow> (foldl (set_header (replace_lt g)) heap syms, err)
              | None \<Rightarrow> (heap, err @ [NoHeaderFound htmlfile]))))"

text \<open>The loop over \<^verbatim>\<open>links.items()\<close>.\<close>

definition resolve_links ::
  "env \<Rightarrow> string \<Rightarrow> (string option, nat list) dict \<Rightarrow> sym list \<times> diag list
   \<Rightarrow> sym list \<times> diag list" where
  "resolve_links E htmldir links st =
     foldl (resolve_link E htmldir) st (dict_items (links_order E) links)"

section \<open>Filtering and salvage (\<^verbatim>\<open>filter_syms\<close>)\<close>

text \<open>
  \<^verbatim>\<open>filter_syms\<close> reads the variable \<^verbatim>\<open>c_syms\<close> of \<^verbatim>\<open>main\<close>. While the C table is
  filtered the variable still holds the table of the objects; once
  \<^verbatim>\<open>c_syms = dict(filter_syms('C', c_syms))\<close> is done, and so while the C++ table is
  filtered, it holds header sets.
\<close>

datatype c_table = Objects "(string, nat) dict" | Sets "(string, string set) dict"

text \<open>
  The first condition of the salvage,
  \<^verbatim>\<open>name.startswith('std::') and name[5:] in c_syms and c_syms[name[5:]] & set(shadows.keys())\<close>:
  \<open>Inr (Some hdrs)\<close> when it holds, with \<open>hdrs\<close> the set \<^verbatim>\<open>c_syms[name[5:]]\<close>. On the table
  of the objects \<^verbatim>\<open>&\<close> has a dictionary on its left and raises TypeError.
\<close>

definition salvage_c :: "c_table \<Rightarrow> string \<Rightarrow> py_error + string set option" where
  "salvage_c c_syms name =
     (if startswith name ''std::'' then
        (case c_syms of
           Objects d \<Rightarrow>
             (case map_of d (drop 5 name) of None \<Rightarrow> Inr None | Some obj \<Rightarrow> Inl TypeError)
         | Sets d \<Rightarrow>
             (case map_of d (drop 5 name) of
                None \<Rightarrow> Inr None
              | Some hdrs \<Rightarrow> Inr (if shadowed hdrs then Some hdrs else None)))
      else Inr None)"

text \<open>The second condition, on \<^verbatim>\<open>man_syms\<close>.\<close>

definition salvage_man :: "(string, string set) dict \<Rightarrow> string \<Rightarrow> string set option" where
  "salvage_man man_syms name =
     (if startswith name ''std::'' then
        (case map_of man_syms (drop 5 name) of
           None \<Rightarrow> None
         | Some hdrs \<Rightarrow> if shadowed hdrs then Some hdrs else None)
      else None)"

text \<open>
  \<^verbatim>\<open>sym.get('header')\<close> as a condition: it holds for a header that is there and is not
  the empty string.
\<close>

definition header_of :: "sym \<Rightarrow> string option" where
  "header_of obj =
     (case sym_header obj of None \<Rightarrow> None | Some h \<Rightarrow> if h = [] then None else Some h)"

text \<open>
  The body of the loop of \<^verbatim>\<open>filter_syms\<close> for one pair \<^verbatim>\<open>(name, sym)\<close>: the pair it
  yields, if any, and the line it prints, if any.
\<close>

definition filter_sym ::
  "string \<Rightarrow> c_table \<Rightarrow> (string, string set) dict \<Rightarrow> string \<Rightarrow> sym
   \<Rightarrow> py_error + (string \<times> string set) list \<times> diag list" where
  "filter_sym lang c_syms man_syms name obj =
     (case header_of obj of
        Some header \<Rightarrow> Inr ([(name, {header})], [])
      | None \<Rightarrow>
        (case salvage_c c_syms name of
           Inl e \<Rightarrow> Inl e
         | Inr (Some hdrs) \<Rightarrow>
             Inr ([(name, shadow_set hdrs)], [SalvageC name (shadow_set hdrs)])
         | Inr None \<Rightarrow>
             (case salvage_man man_syms name of
                Some hdrs \<Rightarrow>
                  Inr ([(name, shadow_set hdrs)], [SalvageMan name (shadow_set hdrs)])
              | None \<Rightarrow> Inr ([], [Discard lang name]))))"

text \<open>
  The generator over \<^verbatim>\<open>syms.items()\<close>, given as pairs of a name and the address of its
  object in the store: all the pairs it yields and all the lines it prints, in order.
\<close>

fun filter_syms ::
  "string \<Rightarrow> c_table \<Rightarrow> (string, string set) dict \<Rightarrow> sym list \<Rightarrow> (string \<times> nat) list
   \<Rightarrow> py_error + (string \<times> string set) list \<times> diag list" where
  "filter_syms lang c_syms man_syms heap [] = Inr ([], [])"
| "filter_syms lang c_syms man_syms heap ((name, a) # items) =
     (case filter_sym lang c_syms man_syms name (heap ! a) of
        Inl e \<Rightarrow> Inl e
      | Inr (ys, ds) \<Rightarrow>
          (case filter_syms lang c_syms man_syms heap items of
             Inl e \<Rightarrow> Inl e
           | Inr (ys', ds') \<Rightarrow> Inr (ys @ ys', ds @ ds')))"

section \<open>Backfill from the man pages and short names\<close>

text \<open>The body of the loop over \<^verbatim>\<open>man_syms.items()\<close>, on the two tables.\<close>

definition merge_man ::
  "(string, string set) dict \<times> (string, string set) dict \<Rightarrow> string \<times> string set
   \<Rightarrow> (string, string set) dict \<times> (string, string set) dict" where
  "merge_man tabs item =
     (case tabs of (c_syms, cpp_syms) \<Rightarrow>
      case item of (name, hdrs) \<Rightarrow>
        (if map_of c_syms name = None then dict_set c_syms name hdrs else c_syms,
         if map_of cpp_syms name = None \<and> map_of cpp_syms (''std::'' @ name) = None
         then dict_set cpp_syms name (shadow_set hdrs) else cpp_syms))"

text \<open>
  The body of the loop over the copy \<^verbatim>\<open>cpp_syms.items()[:]\<close>, on the C++ table and
  the lines printed. \<^verbatim>\<open>name.rindex('::')\<close> raises ValueError when there is no
  \<^verbatim>\<open>::\<close>, and the loop passes on.
\<close>

definition decanonicalize ::
  "(string, entry_value) dict \<times> diag list \<Rightarrow> string \<times> entry_value
   \<Rightarrow> (string, entry_value) dict \<times> diag list" where
  "decanonicalize st item =
     (case st of (cpp_syms, err) \<Rightarrow>
      case item of (name, hdrs) \<Rightarrow>
        (case rindex name ''::'' of
           None \<Rightarrow> (cpp_syms, err)
         | Some i \<Rightarrow>
             let short_name = drop (i + 2) name in
             if map_of cpp_syms short_name \<noteq> None then (cpp_syms, err @ [Conflict name])
             else (dict_set cpp_syms short_name (Redirect name), err)))"

text \<open>The two loops, and the mark \<open>Headers\<close> on the sets of a table.\<close>

definition merge_mans ::
  "env \<Rightarrow> (string, string set) dict
   \<Rightarrow> (string, string set) dict \<times> (string, string set) dict
   \<Rightarrow> (string, string set) dict \<times> (string, string set) dict" where
  "merge_mans E man_syms tabs = foldl merge_man tabs (dict_items (keys_order E) man_syms)"

definition with_headers :: "(string, string set) dict \<Rightarrow> (string, entry_value) dict" where
  "with_headers d = map (\<lambda>(name, hdrs). (name, Headers hdrs)) d"

definition decanonicalize_all ::
  "env \<Rightarrow> (string, entry_value) dict \<times> diag list
   \<Rightarrow> (string, entry_value) dict \<times> diag list" where
  "decanonicalize_all E st = foldl decanonicalize st (dict_items (keys_order E) (fst st))"

section \<open>The generator (\<^verbatim>\<open>main\<close>)\<close>

text \<open>
  What \<^verbatim>\<open>main\<close> reads: the directory \<^verbatim>\<open>cppdir\<close>, the man pages as pairs of a path and
  the lines of the file, in the order of \<^verbatim>\<open>itertools.chain(get_mans(3), get_mans(2))\<close>,
  and the children of the roots of the two index documents.
\<close>

record inputs =
  cppdir :: string
  man_pages :: "(string \<times> string list) list"
  xml_c :: "xml_node list"
  xml_cpp :: "xml_node list"

text \<open>
  \<^verbatim>\<open>main\<close> up to the two tables that it hands to \<^verbatim>\<open>make_happy_tree\<close>, with all the
  lines printed to \<^verbatim>\<open>sys.stderr\<close>. The C++ table holds sets until the last loop stores
  strings in it. The three lines that \<^verbatim>\<open>main\<close> prints to the
  standard output are left out.
\<close>

definition final_indexes ::
  "env \<Rightarrow> inputs
   \<Rightarrow> py_error + (string, entry_value) dict \<times> (string, entry_value) dict \<times> diag list" where
  "final_indexes E inp =
     (let htmldir = cppdir inp @ ''/reference/en.cppreference.com/w'';
          (man_syms, err) = load_mans E (man_pages inp)
      in
      case load_catalogs E (xml_c inp) (xml_cpp inp) of
        Inl e \<Rightarrow> Inl e
      | Inr st \<Rightarrow>
          let (heap, err) = resolve_links E htmldir (st_links st) (st_heap st, err) in
          (case filter_syms ''C'' (Objects (st_c_syms st)) man_syms heap
                  (dict_items (keys_order E) (st_c_syms st)) of
             Inl e \<Rightarrow> Inl e
           | Inr (c_pairs, c_err) \<Rightarrow>
               let c_syms = dict_of c_pairs in
               (case filter_syms ''C++'' (Sets c_syms) man_syms heap
                       (dict_items (keys_order E) (st_cpp_syms st)) of
                  Inl e \<Rightarrow> Inl e
                | Inr (cpp_pairs, cpp_err) \<Rightarrow>
                    let cpp_syms = dict_of cpp_pairs;
                        (c_syms, cpp_syms) = merge_mans E man_syms (c_syms, cpp_syms);
                        (cpp_syms, err) =
                          decanonicalize_all E (with_headers cpp_syms, err @ c_err @ cpp_err)
                    in Inr (with_headers c_syms, cpp_syms, err))))"

text \<open>
  The last loop of \<^verbatim>\<open>main\<close>: the content of the two files \<^verbatim>\<open>includeme-index-c.el\<close> and
  \<^verbatim>\<open>includeme-index-cpp.el\<close>. \<open>elems\<close> is the order in which \<^verbatim>\<open>" ".join(hdrs)\<close>
  iterates over a set.
\<close>

definition write_index ::
  "env \<Rightarrow> (string set \<Rightarrow> string list) \<Rightarrow> string \<Rightarrow> (string, entry_value) dict
   \<Rightarrow> py_error + string" where
  "write_index E elems name syms =
     (case make_happy_tree elems (''(setq '' @ name @ '' '') (dict_items (keys_order E) syms) of
        Inl e \<Rightarrow> Inl e
      | Inr out \<Rightarrow> Inr (out @ '')'' @ [CHR 0x0A]))"

definition main ::
  "env \<Rightarrow> (string set \<Rightarrow> string list) \<Rightarrow> inputs \<Rightarrow> py_error + string \<times> string \<times> diag list" where
  "main E elems inp =
     (case final_indexes E inp of
        Inl e \<Rightarrow> Inl e
      | Inr (c_syms, cpp_syms, err) \<Rightarrow>
          (case write_index E elems ''includeme-index-c'' c_syms of
             Inl e \<Rightarrow> Inl e
           | Inr c_file \<Rightarrow>
               (case write_index E elems ''includeme-index-cpp'' cpp_syms of
                  Inl e \<Rightarrow> Inl e
                | Inr cpp_file \<Rightarrow> Inr (c_file, cpp_file, err))))"

section \<open>Well-formed indexes\<close>

text \<open>
  An index is well formed when every entry either holds a header set that is not empty,
  or holds the name of an entry of the same index that holds such a header set.
\<close>

definition index_ok :: "(string, entry_value) dict \<Rightarrow> bool" where
  "index_ok idx =
     (\<forall>(name, v) \<in> set idx.
        case v of
          Headers hdrs \<Rightarrow> hdrs \<noteq> {}
        | Redirect canonical \<Rightarrow>
            (case map_of idx canonical of
               Some (Headers hdrs) \<Rightarrow> hdrs \<noteq> {}
             | Some (Redirect other) \<Rightarrow> False
             | None \<Rightarrow> False))"

text \<open>
  The invariants behind it: every header set of a table is not empty, and every value of
  the C++ table is such a set or the name of a key that holds such a set.
\<close>

definition vals_ok :: "(string, string set) dict \<Rightarrow> bool" where
  "vals_ok d = (\<forall>k v. map_of d k = Some v \<longrightarrow> v \<noteq> {})"

definition redirects_ok :: "(string, entry_value) dict \<Rightarrow> bool" where
  "redirects_ok d =
     (\<forall>k v. map_of d k = Some v \<longrightarrow>
        (case v of
           Headers hdrs \<Rightarrow> hdrs \<noteq> {}
         | Redirect canonical \<Rightarrow> (\<exists>hdrs. map_of d canonical = Some (Headers hdrs) \<and> hdrs \<noteq> {})))"

section \<open>An example run\<close>

text \<open>
  One man page that declares \<^verbatim>\<open>fstat\<close> after including \<^verbatim>\<open>sys/stat.h\<close>, an empty C
  index, a C++ index with \<^verbatim>\<open>std::printf\<close>, and a detail page for it that names
  \<^verbatim>\<open>cstdio\<close>. The regular expressions are given on these lines only, and the
  dictionaries are iterated in the order of insertion.
\<close>

definition example_env :: env where
  "example_env =
     \<lparr>re_include = \<lambda>line. if line = ''.B #include <sys/stat.h>'' then Some ''sys/stat.h'' else None,
      re_func = \<lambda>line. if line = ''.BI int fstat(int fd);'' then Some ''fstat'' else None,
      re_header = \<lambda>html. if html = [] then None else Some html,
      read_html = \<lambda>path. if path = ''doc/reference/en.cppreference.com/w/cpp/io/c/fprintf.html''
                          then Some ''cstdio'' else None,
      keys_order = \<lambda>ks. ks, links_order = \<lambda>ks. ks\<rparr>"

definition example_inputs :: inputs where
  "example_inputs =
     \<lparr>cppdir = ''doc'',
      man_pages = [(''fstat.2'', [''.B #include <sys/stat.h>'', ''.BI int fstat(int fd);''])],
      xml_c = [],
      xml_cpp = [\<lparr>tag = ''function'',
                  attrib = [(''name'', ''std::printf''), (''link'', ''cpp/io/c/fprintf'')]\<rparr>]\<rparr>"

section \<open>Properties of the tree serializer\<close>










section \<open>Properties of the man-page loop\<close>

lemma map_of_dict_set: "map_of (dict_set d k v) = (map_of d)(k \<mapsto> v)"
  by (simp add: dict_set_def update_conv')

lemma distinct_dict_set: "distinct (map fst d) \<Longrightarrow> distinct (map fst (dict_set d k v))"
  by (simp add: dict_set_def distinct_update)

lemma man_loop_snoc: "man_loop (evs @ [ev]) = man_event (man_loop evs) ev"
  by (simp add: man_loop_def)

lemma man_event_keeps:
  "map_of (fst st) f = Some s \<Longrightarrow> map_of (fst (man_event st ev)) f = Some s"
  by (cases st; cases ev)
     (auto simp: man_event_def man_add_def map_of_dict_set split: option.splits)

lemma man_event_diags:
  "d \<in> set (snd st) \<Longrightarrow> d \<in> set (snd (man_event st ev))"
  by (cases st; cases ev)
     (auto simp: man_event_def man_add_def split: option.splits)

lemma foldl_man_event_keeps:
  "map_of (fst st) f = Some s \<Longrightarrow> map_of (fst (foldl man_event st evs)) f = Some s"
proof (induction evs arbitrary: st)
  case Nil
  then show ?case by simp
next
  case (Cons ev evs)
  show ?case using Cons.IH[OF man_event_keeps[OF Cons.prems]] by simp
qed

lemma foldl_man_event_diags:
  "d \<in> set (snd st) \<Longrightarrow> d \<in> set (snd (foldl man_event st evs))"
proof (induction evs arbitrary: st)
  case Nil
  then show ?case by simp
next
  case (Cons ev evs)
  show ?case using Cons.IH[OF man_event_diags[OF Cons.prems]] by simp
qed

text \<open>
  Claim C5. When the loop meets a name that the table already holds with a different
  header set, the table stays as it is and the line \<^verbatim>\<open>does ... have ... or ...?\<close> is
  printed; whatever follows, the name keeps the set stored first and the line stays on
  the diagnostic stream.
\<close>

theorem man_first_seen_wins:
  assumes "map_of (fst (man_loop pre)) func = Some stored" and "includes \<noteq> stored"
  shows "man_loop (pre @ [Inr (func, includes)])
           = (fst (man_loop pre), snd (man_loop pre) @ [ManConflict func stored includes])
       \<and> map_of (fst (man_loop (pre @ Inr (func, includes) # post))) func = Some stored
       \<and> ManConflict func stored includes
           \<in> set (snd (man_loop (pre @ Inr (func, includes) # post)))"
proof -
  have step: "man_loop (pre @ [Inr (func, includes)])
           = (fst (man_loop pre), snd (man_loop pre) @ [ManConflict func stored includes])"
    using assms by (cases "man_loop pre") (simp add: man_loop_snoc man_event_def man_add_def)
  have split: "man_loop (pre @ Inr (func, includes) # post)
      = foldl man_event (man_loop (pre @ [Inr (func, includes)])) post"
    by (simp add: man_loop_def)
  have "map_of (fst (man_loop (pre @ Inr (func, includes) # post))) func = Some stored"
    unfolding split by (rule foldl_man_event_keeps) (simp add: step assms)
  moreover have "ManConflict func stored includes
           \<in> set (snd (man_loop (pre @ Inr (func, includes) # post)))"
    unfolding split by (rule foldl_man_event_diags) (simp add: step)
  ultimately show ?thesis using step by simp
qed

lemma man_loop_example:
  "man_loop [Inr (''f'', {''a.h''})] = ([(''f'', {''a.h''})], [])"
  by (simp add: man_loop_def man_event_def man_add_def dict_set_def)

theorem man_first_seen_wins_witness:
  "map_of (fst (man_loop [Inr (''f'', {''a.h''})])) ''f'' = Some {''a.h''}
   \<and> {''b.h''} \<noteq> {''a.h''}
   \<and> man_loop ([Inr (''f'', {''a.h''})] @ [Inr (''f'', {''b.h''})])
           = (fst (man_loop [Inr (''f'', {''a.h''})]),
              snd (man_loop [Inr (''f'', {''a.h''})]) @ [ManConflict ''f'' {''a.h''} {''b.h''}])
   \<and> map_of (fst (man_loop ([Inr (''f'', {''a.h''})] @ Inr (''f'', {''b.h''}) # []))) ''f''
       = Some {''a.h''}
   \<and> ManConflict ''f'' {''a.h''} {''b.h''}
           \<in> set (snd (man_loop ([Inr (''f'', {''a.h''})] @ Inr (''f'', {''b.h''}) # [])))"
proof -
  have h1: "map_of (fst (man_loop [Inr (''f'', {''a.h''})])) ''f'' = Some {''a.h''}"
    by (simp add: man_loop_example)
  have h2: "{''b.h''} \<noteq> {''a.h''}" by simp
  show ?thesis
    using h1 h2 man_first_seen_wins[OF h1 h2, of "[]"] by blast
qed

lemma man_loop_facts_snoc:
  "man_loop (map Inr (facts @ [x])) = man_add (man_loop (map Inr facts)) x"
  by (simp add: man_loop_def man_event_def)

lemma man_loop_table:
  "map_of (fst (man_loop (map Inr facts))) = map_of facts"
proof (induction facts rule: rev_induct)
  case Nil
  show ?case by (simp add: man_loop_def)
next
  case (snoc x facts)
  obtain f s where x: "x = (f, s)" by (cases x)
  obtain m e where st: "man_loop (map Inr facts) = (m, e)" by (cases "man_loop (map Inr facts)")
  have m: "map_of m = map_of facts" using snoc.IH st by simp
  show ?case
  proof (rule ext)
    fix k
    show "map_of (fst (man_loop (map Inr (facts @ [x])))) k = map_of (facts @ [x]) k"
      unfolding man_loop_facts_snoc st x
      by (cases "map_of facts f"; cases "map_of facts k")
         (auto simp: man_add_def m map_of_dict_set map_add_def)
  qed
qed

lemma man_loop_diags_snoc:
  "snd (man_loop (map Inr (facts @ [(f, s)])))
     = snd (man_loop (map Inr facts))
       @ (case map_of facts f of
            Some a \<Rightarrow> if s \<noteq> a then [ManConflict f a s] else []
          | None \<Rightarrow> [])"
proof -
  obtain m e where st: "man_loop (map Inr facts) = (m, e)" by (cases "man_loop (map Inr facts)")
  have m: "map_of m = map_of facts" using man_loop_table[of facts] st by simp
  show ?thesis unfolding man_loop_facts_snoc st
    by (simp add: man_add_def m split: option.splits)
qed

lemma snoc_split_iff:
  "(\<exists>pre post. facts @ [x] = pre @ y # post \<and> P pre)
     \<longleftrightarrow> (\<exists>pre post. facts = pre @ y # post \<and> P pre) \<or> (x = y \<and> P facts)"
  (is "?L \<longleftrightarrow> ?A \<or> ?B")
proof
  assume ?L
  then obtain pre post where d: "facts @ [x] = pre @ y # post" "P pre"
    by blast
  show "?A \<or> ?B"
  proof (cases post rule: rev_cases)
    case Nil
    then have "facts @ [x] = pre @ [y]" using d(1) by simp
    then have "facts = pre" "x = y" by simp_all
    then show ?thesis using d(2) by simp
  next
    case (snoc post' z)
    then have "facts @ [x] = (pre @ y # post') @ [z]" using d(1) by simp
    then have "facts = pre @ y # post'" by (simp only: append1_eq_conv)
    then show ?thesis using d(2) by blast
  qed
next
  assume "?A \<or> ?B"
  then show ?L
  proof
    assume ?A
    then obtain pre post where "facts = pre @ y # post" "P pre"
      by blast
    then have "facts @ [x] = pre @ y # (post @ [x])" by simp
    then show ?L using \<open>P pre\<close> by blast
  next
    assume b: ?B
    then have "facts @ [x] = facts @ y # []" by simp
    then show ?L using b by blast
  qed
qed

lemma man_loop_conflicts:
  "(ManConflict f a b \<in> set (snd (man_loop (map Inr facts))))
     = (\<exists>pre post. facts = pre @ (f, b) # post \<and> (map_of pre f = Some a \<and> b \<noteq> a))"
proof (induction facts rule: rev_induct)
  case Nil
  show ?case by (simp add: man_loop_def)
next
  case (snoc x facts)
  obtain g s where x: "x = (g, s)" by (cases x)
  let ?new = "(case map_of facts g of
            Some a \<Rightarrow> if s \<noteq> a then [ManConflict g a s] else []
          | None \<Rightarrow> [])"
  have new: "ManConflict f a b \<in> set ?new
      \<longleftrightarrow> (x = (f, b) \<and> (map_of facts f = Some a \<and> b \<noteq> a))"
    unfolding x by (cases "map_of facts g") auto
  have "ManConflict f a b \<in> set (snd (man_loop (map Inr (facts @ [x]))))
      \<longleftrightarrow> ManConflict f a b \<in> set (snd (man_loop (map Inr facts)))
          \<or> ManConflict f a b \<in> set ?new"
    unfolding x man_loop_diags_snoc by simp
  also have "\<dots> \<longleftrightarrow> (\<exists>pre post. facts = pre @ (f, b) # post \<and> (map_of pre f = Some a \<and> b \<noteq> a))
          \<or> (x = (f, b) \<and> (map_of facts f = Some a \<and> b \<noteq> a))"
    unfolding snoc.IH new ..
  also have "\<dots> \<longleftrightarrow> (\<exists>pre post. facts @ [x] = pre @ (f, b) # post \<and> (map_of pre f = Some a \<and> b \<noteq> a))"
    by (rule snoc_split_iff[where P="\<lambda>pre. map_of pre f = Some a \<and> b \<noteq> a", symmetric])
  finally show ?case .
qed

text \<open>
  Claim C10. For a name that the table already holds, the loop body leaves the table
  as it is; it prints nothing when the header set is the stored one, and the conflict line
  when it differs. Over a whole sequence of pairs, a conflict line for \<open>f\<close> with the sets
  \<open>a\<close> and \<open>b\<close> is printed exactly when some pair \<open>(f, b)\<close> comes after a first pair
  \<open>(f, a)\<close> with \<open>b \<noteq> a\<close>.
\<close>

theorem man_conflict_iff_differs:
  assumes "map_of man_syms func = Some stored"
  shows "fst (man_add (man_syms, err) (func, includes)) = man_syms
       \<and> (includes = stored \<longrightarrow> snd (man_add (man_syms, err) (func, includes)) = err)
       \<and> (includes \<noteq> stored \<longrightarrow>
            snd (man_add (man_syms, err) (func, includes))
              = err @ [ManConflict func stored includes])
       \<and> ((ManConflict f a b \<in> set (snd (man_loop (map Inr facts))))
            = (\<exists>pre post. facts = pre @ (f, b) # post \<and> map_of pre f = Some a \<and> b \<noteq> a))"
  using assms man_loop_conflicts[of f a b facts] by (simp add: man_add_def)

theorem man_conflict_iff_differs_witness:
  "map_of [(''f'', {''a.h''})] ''f'' = Some {''a.h''}
   \<and> fst (man_add ([(''f'', {''a.h''})], []) (''f'', {''a.h''})) = [(''f'', {''a.h''})]
   \<and> snd (man_add ([(''f'', {''a.h''})], []) (''f'', {''a.h''})) = []
   \<and> snd (man_add ([(''f'', {''a.h''})], []) (''f'', {''b.h''}))
       = [ManConflict ''f'' {''a.h''} {''b.h''}]"
proof -
  have h: "map_of [(''f'', {''a.h''})] ''f'' = Some {''a.h''}" by simp
  show ?thesis
    using h man_conflict_iff_differs[OF h, of "[]" "{''a.h''}"]
      man_conflict_iff_differs[OF h, of "[]" "{''b.h''}"] by simp
qed

section \<open>Properties of the alias pass\<close>

lemma resolve_alias_Inl: "resolve_alias st a = Inl e \<Longrightarrow> e = KeyError"
  by (auto simp: resolve_alias_def Let_def split: option.splits if_splits)

lemma resolve_alias_Inr:
  "resolve_alias st x = Inr st' \<Longrightarrow>
     st_cpp_syms st' = st_cpp_syms st \<and> (\<forall>b. b \<noteq> x \<longrightarrow> st_heap st' ! b = st_heap st ! b)"
  by (auto simp: resolve_alias_def Let_def split: option.splits if_splits)

lemma resolve_alias_missing:
  "sym_alias (st_heap st ! a) = Some al \<Longrightarrow> al \<noteq> [] \<Longrightarrow>
   map_of (st_cpp_syms st) al = None \<Longrightarrow> resolve_alias st a = Inl KeyError"
  by (simp add: resolve_alias_def)

lemma resolve_alias_present:
  assumes "sym_alias (st_heap st ! a) = Some al" "al \<noteq> []"
    "map_of (st_cpp_syms st) al = Some other" "a < length (st_heap st)"
  shows "resolve_alias st a =
     Inr (st\<lparr>st_heap := (st_heap st)
            [a := (st_heap st ! a)
               \<lparr>sym_type := sym_type (st_heap st ! a) @ ''('' @ sym_type (st_heap st ! other) @ '')'',
                sym_link := sym_link (st_heap st ! other)\<rparr>]\<rparr>)"
proof (cases "other = a")
  case True
  then show ?thesis using assms by (simp add: resolve_alias_def Let_def)
next
  case False
  then show ?thesis using assms by (simp add: resolve_alias_def Let_def)
qed

lemma for_each_resolve_alias_error:
  "a \<in> set vals \<Longrightarrow> sym_alias (st_heap st ! a) = Some al \<Longrightarrow> al \<noteq> [] \<Longrightarrow>
   map_of (st_cpp_syms st) al = None \<Longrightarrow> for_each resolve_alias vals st = Inl KeyError"
proof (induction vals arbitrary: st)
  case Nil
  then show ?case by simp
next
  case (Cons x xs)
  show ?case
  proof (cases "resolve_alias st x")
    case (Inl e)
    then show ?thesis using resolve_alias_Inl[OF Inl] by simp
  next
    case (Inr st')
    have "x \<noteq> a" using Inr resolve_alias_missing[OF Cons.prems(2,3,4)] by auto
    then have a: "a \<in> set xs" using Cons.prems(1) by simp
    have k: "st_cpp_syms st' = st_cpp_syms st" "st_heap st' ! a = st_heap st ! a"
      using resolve_alias_Inr[OF Inr] \<open>x \<noteq> a\<close> by auto
    have "for_each resolve_alias xs st' = Inl KeyError"
      using Cons.IH[OF a, of st'] Cons.prems(2,3,4) k by simp
    then show ?thesis using Inr by simp
  qed
qed

lemma main_alias_error:
  assumes "for_each load_c_node (xml_c inp) empty_catalog = Inr st1"
    "for_each load_cpp_node (xml_cpp inp) st1 = Inr st"
    "for_each resolve_alias (dict_values (keys_order E) (st_cpp_syms st)) st = Inl e"
  shows "main E elems inp = Inl e"
proof -
  have "load_catalogs E (xml_c inp) (xml_cpp inp) = Inl e"
    using assms by (simp add: load_catalogs_def)
  then have "final_indexes E inp = Inl e"
    by (simp add: final_indexes_def Let_def split: prod.splits)
  then show ?thesis by (simp add: main_def)
qed

text \<open>
  Claim C8. For an object of the C++ table whose alias is neither \<^verbatim>\<open>None\<close> nor empty:
  when the alias is not a key of the table, the step raises KeyError, so does the pass
  over any addresses among which the object is, and so does \<^verbatim>\<open>main\<close>; when the alias
  is a key, the step returns, the type of the object has become \<^verbatim>\<open>type(type of the target)\<close>
  and its link the link of the target, and nothing else has changed.
\<close>

theorem resolve_alias_lookup:
  assumes "sym_alias (st_heap st ! a) = Some al" and "al \<noteq> []"
  shows "(map_of (st_cpp_syms st) al = None \<longrightarrow>
            resolve_alias st a = Inl KeyError
          \<and> (a \<in> set vals \<longrightarrow> for_each resolve_alias vals st = Inl KeyError)
          \<and> (for_each load_c_node (xml_c inp) empty_catalog = Inr st1
              \<and> for_each load_cpp_node (xml_cpp inp) st1 = Inr st
              \<and> a \<in> set (dict_values (keys_order E) (st_cpp_syms st))
              \<longrightarrow> main E elems inp = Inl KeyError))
       \<and> (\<forall>other. map_of (st_cpp_syms st) al = Some other \<and> a < length (st_heap st) \<longrightarrow>
            resolve_alias st a =
              Inr (st\<lparr>st_heap := (st_heap st)
                     [a := (st_heap st ! a)
                        \<lparr>sym_type := sym_type (st_heap st ! a) @ ''('' @
                                     sym_type (st_heap st ! other) @ '')'',
                         sym_link := sym_link (st_heap st ! other)\<rparr>]\<rparr>))"
proof (intro conjI impI allI)
  assume n: "map_of (st_cpp_syms st) al = None"
  show "resolve_alias st a = Inl KeyError"
    using resolve_alias_missing[OF assms n] .
  show "for_each resolve_alias vals st = Inl KeyError" if "a \<in> set vals"
    using for_each_resolve_alias_error[OF that assms n] .
  show "main E elems inp = Inl KeyError"
    if l: "for_each load_c_node (xml_c inp) empty_catalog = Inr st1
              \<and> for_each load_cpp_node (xml_cpp inp) st1 = Inr st
              \<and> a \<in> set (dict_values (keys_order E) (st_cpp_syms st))"
  proof -
    have "for_each resolve_alias (dict_values (keys_order E) (st_cpp_syms st)) st = Inl KeyError"
      using for_each_resolve_alias_error[OF _ assms n] l by blast
    then show ?thesis using main_alias_error l by blast
  qed
next
  fix other
  assume "map_of (st_cpp_syms st) al = Some other \<and> a < length (st_heap st)"
  then show "resolve_alias st a =
              Inr (st\<lparr>st_heap := (st_heap st)
                     [a := (st_heap st ! a)
                        \<lparr>sym_type := sym_type (st_heap st ! a) @ ''('' @
                                     sym_type (st_heap st ! other) @ '')'',
                         sym_link := sym_link (st_heap st ! other)\<rparr>]\<rparr>)"
    using resolve_alias_present[OF assms] by blast
qed

lemma alias_example_load:
  "for_each load_cpp_node
     [\<lparr>tag = ''typedef'',
       attrib = [(''name'', ''std::string''), (''alias'', ''std::basic_string'')]\<rparr>]
     empty_catalog
   = Inr \<lparr>st_heap = [\<lparr>sym_name = ''std::string'', sym_type = ''typedef'',
                       sym_alias = Some ''std::basic_string'', sym_link = None,
                       sym_header = None\<rparr>],
          st_links = [], st_c_syms = [], st_cpp_syms = [(''std::string'', 0)]\<rparr>"
  by (simp add: load_cpp_node_def empty_catalog_def dict_set_def startswith_def)

theorem resolve_alias_lookup_witness:
  "sym_alias (st_heap \<lparr>st_heap = [\<lparr>sym_name = ''std::string'', sym_type = ''typedef'',
                       sym_alias = Some ''std::basic_string'', sym_link = None,
                       sym_header = None\<rparr>],
          st_links = [], st_c_syms = [], st_cpp_syms = [(''std::string'', 0)]\<rparr> ! 0)
     = Some ''std::basic_string''
   \<and> ''std::basic_string'' \<noteq> []
   \<and> resolve_alias \<lparr>st_heap = [\<lparr>sym_name = ''std::string'', sym_type = ''typedef'',
                       sym_alias = Some ''std::basic_string'', sym_link = None,
                       sym_header = None\<rparr>],
          st_links = [], st_c_syms = [], st_cpp_syms = [(''std::string'', 0)]\<rparr> 0
       = Inl KeyError
   \<and> main \<lparr>re_include = \<lambda>line. None, re_func = \<lambda>line. None, re_header = \<lambda>html. None,
            read_html = \<lambda>path. None, keys_order = \<lambda>ks. ks, links_order = \<lambda>ks. ks\<rparr>
          (\<lambda>hdrs. [])
          \<lparr>cppdir = ''doc'', man_pages = [], xml_c = [],
           xml_cpp = [\<lparr>tag = ''typedef'',
              attrib = [(''name'', ''std::string''), (''alias'', ''std::basic_string'')]\<rparr>]\<rparr>
       = Inl KeyError
   \<and> resolve_alias \<lparr>st_heap = [\<lparr>sym_name = ''std::string'', sym_type = ''typedef'',
                       sym_alias = Some ''std::basic_string'', sym_link = None,
                       sym_header = None\<rparr>,
                     \<lparr>sym_name = ''std::basic_string'', sym_type = ''class'',
                       sym_alias = None, sym_link = Some ''cpp/string/basic_string'',
                       sym_header = None\<rparr>],
          st_links = [], st_c_syms = [],
          st_cpp_syms = [(''std::string'', 0), (''std::basic_string'', 1)]\<rparr> 0
       = Inr \<lparr>st_heap = [\<lparr>sym_name = ''std::string'', sym_type = ''typedef(class)'',
                       sym_alias = Some ''std::basic_string'',
                       sym_link = Some ''cpp/string/basic_string'', sym_header = None\<rparr>,
                     \<lparr>sym_name = ''std::basic_string'', sym_type = ''class'',
                       sym_alias = None, sym_link = Some ''cpp/string/basic_string'',
                       sym_header = None\<rparr>],
          st_links = [], st_c_syms = [],
          st_cpp_syms = [(''std::string'', 0), (''std::basic_string'', 1)]\<rparr>"
proof -
  let ?st2 = "\<lparr>st_heap = [\<lparr>sym_name = ''std::string'', sym_type = ''typedef'',
                       sym_alias = Some ''std::basic_string'', sym_link = None,
                       sym_header = None\<rparr>,
                     \<lparr>sym_name = ''std::basic_string'', sym_type = ''class'',
                       sym_alias = None, sym_link = Some ''cpp/string/basic_string'',
                       sym_header = None\<rparr>],
          st_links = [], st_c_syms = [],
          st_cpp_syms = [(''std::string'', 0), (''std::basic_string'', 1)]\<rparr>"
  have g1: "sym_alias (st_heap ?st2 ! 0) = Some ''std::basic_string''" by simp
  have g2: "map_of (st_cpp_syms ?st2) ''std::basic_string'' = Some 1 \<and> 0 < length (st_heap ?st2)"
    by simp
  let ?st = "\<lparr>st_heap = [\<lparr>sym_name = ''std::string'', sym_type = ''typedef'',
                       sym_alias = Some ''std::basic_string'', sym_link = None,
                       sym_header = None\<rparr>],
          st_links = [], st_c_syms = [], st_cpp_syms = [(''std::string'', 0)]\<rparr>"
  let ?E = "\<lparr>re_include = \<lambda>line. None, re_func = \<lambda>line. None, re_header = \<lambda>html. None,
            read_html = \<lambda>path. None, keys_order = \<lambda>ks. ks, links_order = \<lambda>ks. ks\<rparr>"
  let ?inp = "\<lparr>cppdir = ''doc'', man_pages = [], xml_c = [],
           xml_cpp = [\<lparr>tag = ''typedef'',
              attrib = [(''name'', ''std::string''), (''alias'', ''std::basic_string'')]\<rparr>]\<rparr>"
  have h1: "sym_alias (st_heap ?st ! 0) = Some ''std::basic_string''" by simp
  have h2: "''std::basic_string'' \<noteq> []" by simp
  have n: "map_of (st_cpp_syms ?st) ''std::basic_string'' = None" by simp
  have l1: "for_each load_c_node (xml_c ?inp) empty_catalog = Inr empty_catalog" by simp
  have l2: "for_each load_cpp_node (xml_cpp ?inp) empty_catalog = Inr ?st"
    using alias_example_load by simp
  have v: "0 \<in> set (dict_values (keys_order ?E) (st_cpp_syms ?st))"
    by (simp add: dict_values_def dict_items_def map_filter_def)
  note t = resolve_alias_lookup[OF h1 h2, of "[0]" ?inp empty_catalog ?E "\<lambda>hdrs. []"]
  have t1: "resolve_alias ?st 0 = Inl KeyError"
    using t n by (elim conjE) (erule impE, assumption, erule conjunct1)
  have t2: "main ?E (\<lambda>hdrs. []) ?inp = Inl KeyError"
    using t n l1 l2 v by blast
  note u = resolve_alias_lookup[OF g1 h2, of "[]" ?inp empty_catalog ?E "\<lambda>hdrs. []"]
  have u1: "resolve_alias ?st2 0 =
              Inr (?st2\<lparr>st_heap := (st_heap ?st2)
                     [0 := (st_heap ?st2 ! 0)
                        \<lparr>sym_type := sym_type (st_heap ?st2 ! 0) @ ''('' @
                                     sym_type (st_heap ?st2 ! 1) @ '')'',
                         sym_link := sym_link (st_heap ?st2 ! 1)\<rparr>]\<rparr>)"
    using u g2 by blast
  have t3: "resolve_alias ?st2 0 = Inr \<lparr>st_heap = [\<lparr>sym_name = ''std::string'', sym_type = ''typedef(class)'',
                       sym_alias = Some ''std::basic_string'',
                       sym_link = Some ''cpp/string/basic_string'', sym_header = None\<rparr>,
                     \<lparr>sym_name = ''std::basic_string'', sym_type = ''class'',
                       sym_alias = None, sym_link = Some ''cpp/string/basic_string'',
                       sym_header = None\<rparr>],
          st_links = [], st_c_syms = [],
          st_cpp_syms = [(''std::string'', 0), (''std::basic_string'', 1)]\<rparr>"
    using u1 by simp
  show ?thesis using h1 h2 t1 t2 t3 by (intro conjI)
qed

section \<open>Properties of the backfill\<close>







lemma shadow_sys_stat: "shadow ''sys/stat.h'' = ''sys/stat.h''"
  by (simp add: shadow_def shadows_def)


section \<open>Properties of the short names\<close>

lemma startswith_append: "startswith s p \<Longrightarrow> s = p @ drop (length p) s"
  by (metis append_take_drop_id startswith_def)

lemma contains_iff: "contains sub s \<longleftrightarrow> (\<exists>pre post. s = pre @ sub @ post)"
proof (induction s)
  case Nil
  show ?case by auto
next
  case (Cons c s)
  show ?case
  proof
    assume "contains sub (c # s)"
    then consider "startswith (c # s) sub" | "contains sub s" by auto
    then show "\<exists>pre post. c # s = pre @ sub @ post"
    proof cases
      case 1
      then have "c # s = [] @ sub @ drop (length sub) (c # s)"
        using startswith_append by fastforce
      then show ?thesis by blast
    next
      case 2
      then obtain pre post where "s = pre @ sub @ post" using Cons.IH by blast
      then have "c # s = (c # pre) @ sub @ post" by simp
      then show ?thesis by blast
    qed
  next
    assume "\<exists>pre post. c # s = pre @ sub @ post"
    then obtain pre post where d: "c # s = pre @ sub @ post" by blast
    show "contains sub (c # s)"
    proof (cases pre)
      case Nil
      then have "startswith (c # s) sub" using d by (simp add: startswith_def)
      then show ?thesis by simp
    next
      case (Cons c' pre')
      then have "s = pre' @ sub @ post" using d by simp
      then show ?thesis using Cons.IH by auto
    qed
  qed
qed

lemma rindex_None: "rindex s sub = None \<longleftrightarrow> \<not> contains sub s"
  by (induction s) (auto split: option.splits)

lemma rindex_Some:
  "rindex s sub = Some i \<Longrightarrow>
     i \<le> length s \<and> startswith (drop i s) sub
     \<and> (\<forall>j. i < j \<and> j \<le> length s \<longrightarrow> \<not> startswith (drop j s) sub)"
proof (induction s arbitrary: i)
  case Nil
  then show ?case by (auto simp: startswith_def split: if_splits)
next
  case (Cons c s)
  show ?case
  proof (cases "rindex s sub")
    case None
    then have i: "i = 0" "startswith (c # s) sub" using Cons.prems by (auto split: if_splits)
    have "\<not> startswith (drop j (c # s)) sub" if jp: "0 < j" "j \<le> length (c # s)" for j
    proof -
      obtain j' where j': "j = Suc j'" using jp(1) by (cases j) auto
      have "\<not> contains sub s" using None rindex_None by simp
      moreover have "s = take j' s @ drop j' s" by simp
      ultimately have "\<not> startswith (drop j' s) sub"
        by (metis append.assoc contains_iff startswith_append)
      then show ?thesis using j' by simp
    qed
    then show ?thesis using i by simp
  next
    case (Some k)
    then have i: "i = Suc k" using Cons.prems by simp
    have IH: "k \<le> length s \<and> startswith (drop k s) sub
     \<and> (\<forall>j. k < j \<and> j \<le> length s \<longrightarrow> \<not> startswith (drop j s) sub)"
      using Cons.IH[OF Some] .
    have "\<not> startswith (drop j (c # s)) sub" if jp: "i < j" "j \<le> length (c # s)" for j
    proof -
      obtain j' where j': "j = Suc j'" using jp(1) by (cases j) auto
      then show ?thesis using IH jp i by simp
    qed
    then show ?thesis using IH i by simp
  qed
qed

lemma decanonicalize_keeps:
  "map_of (fst st) k = Some v \<Longrightarrow> map_of (fst (decanonicalize st item)) k = Some v"
  by (cases st; cases item)
     (auto simp: decanonicalize_def map_of_dict_set Let_def split: option.splits)

lemma foldl_decanonicalize_keeps:
  "map_of (fst st) k = Some v \<Longrightarrow> map_of (fst (foldl decanonicalize st items)) k = Some v"
proof (induction items arbitrary: st)
  case Nil
  then show ?case by simp
next
  case (Cons item items)
  show ?case using Cons.IH[OF decanonicalize_keeps[OF Cons.prems]] by simp
qed

text \<open>
  Claim C7. For a name that contains \<^verbatim>\<open>::\<close>, \<^verbatim>\<open>rindex\<close> finds its last occurrence,
  and the short name is what follows it. When the short name is not a key of the table,
  the step stores it with the qualified name as its value; when it is a key, the step
  prints the line \<^verbatim>\<open>conflict\<close> and leaves the table as it is. Over the whole loop no
  entry that the table had before is changed.
\<close>

theorem decanonicalize_short_name:
  assumes "contains ''::'' name"
  shows "\<exists>i. rindex name ''::'' = Some i
           \<and> name = take i name @ ''::'' @ drop (i + 2) name
           \<and> (\<forall>j. i < j \<and> j \<le> length name \<longrightarrow> \<not> startswith (drop j name) ''::'')
           \<and> (map_of cpp_syms (drop (i + 2) name) = None \<longrightarrow>
                decanonicalize (cpp_syms, err) (name, hdrs)
                  = (dict_set cpp_syms (drop (i + 2) name) (Redirect name), err))
           \<and> (map_of cpp_syms (drop (i + 2) name) \<noteq> None \<longrightarrow>
                decanonicalize (cpp_syms, err) (name, hdrs) = (cpp_syms, err @ [Conflict name]))
           \<and> (\<forall>k v. map_of cpp_syms k = Some v \<longrightarrow>
                map_of (fst (foldl decanonicalize (cpp_syms, err) items)) k = Some v)"
proof -
  obtain i where i: "rindex name ''::'' = Some i"
    using assms rindex_None[of name "''::''"] by (cases "rindex name ''::''") auto
  have r: "i \<le> length name" "startswith (drop i name) ''::''"
    "\<forall>j. i < j \<and> j \<le> length name \<longrightarrow> \<not> startswith (drop j name) ''::''"
    using rindex_Some[OF i] by auto
  have "drop i name = ''::'' @ drop (length ''::'') (drop i name)"
    using startswith_append[OF r(2)] .
  then have "drop i name = ''::'' @ drop (i + 2) name" by (simp add: add.commute)
  then have split: "name = take i name @ ''::'' @ drop (i + 2) name"
    by (metis append_take_drop_id)
  have keep: "\<forall>k v. map_of cpp_syms k = Some v \<longrightarrow>
                map_of (fst (foldl decanonicalize (cpp_syms, err) items)) k = Some v"
    using foldl_decanonicalize_keeps[of "(cpp_syms, err)" _ _ items] by simp
  have s1: "map_of cpp_syms (drop (i + 2) name) = None \<longrightarrow>
                decanonicalize (cpp_syms, err) (name, hdrs)
                  = (dict_set cpp_syms (drop (i + 2) name) (Redirect name), err)"
    by (simp add: decanonicalize_def i Let_def)
  have s2: "map_of cpp_syms (drop (i + 2) name) \<noteq> None \<longrightarrow>
                decanonicalize (cpp_syms, err) (name, hdrs) = (cpp_syms, err @ [Conflict name])"
    by (simp add: decanonicalize_def i Let_def)
  show ?thesis
    by (rule exI[of _ i]) (use i split r(3) s1 s2 keep in \<open>intro conjI\<close>)
qed

lemma rindex_std_log: "rindex ''std::log'' ''::'' = Some 3"
  by (simp add: startswith_def)

theorem decanonicalize_short_name_witness:
  "contains ''::'' ''std::log''
   \<and> decanonicalize ([(''std::log'', Headers {''cmath''}), (''log'', Headers {''math.h''})], [])
        (''std::log'', Headers {''cmath''})
      = ([(''std::log'', Headers {''cmath''}), (''log'', Headers {''math.h''})],
         [Conflict ''std::log''])
   \<and> decanonicalize ([(''std::log'', Headers {''cmath''})], [])
        (''std::log'', Headers {''cmath''})
      = ([(''std::log'', Headers {''cmath''}), (''log'', Redirect ''std::log'')], [])"
proof -
  have c: "contains ''::'' ''std::log''" by (simp add: startswith_def)
  show ?thesis
    using c rindex_std_log
      decanonicalize_short_name[OF c,
        of "[(''std::log'', Headers {''cmath''}), (''log'', Headers {''math.h''})]" "[]"
           "Headers {''cmath''}" "[]"]
      decanonicalize_short_name[OF c, of "[(''std::log'', Headers {''cmath''})]" "[]"
           "Headers {''cmath''}" "[]"]
    by (auto simp: dict_set_def)
qed

section \<open>Properties of the filter\<close>

lemma map_of_foldl_dict_set:
  "map_of (foldl (\<lambda>d (k, v). dict_set d k v) d ps) k
     = (case map_of (rev ps) k of Some v \<Rightarrow> Some v | None \<Rightarrow> map_of d k)"
proof (induction ps arbitrary: d)
  case Nil
  show ?case by simp
next
  case (Cons p ps)
  obtain k0 v0 where p: "p = (k0, v0)" by (cases p)
  show ?case
    by (cases "map_of (rev ps) k") (simp_all add: p Cons.IH map_of_dict_set map_add_def)
qed

lemma map_of_dict_of:
  "map_of (dict_of ps) = map_of (rev ps)"
  by (rule ext) (simp add: dict_of_def map_of_foldl_dict_set split: option.splits)

lemma dict_of_SomeD: "map_of (dict_of ps) k = Some v \<Longrightarrow> (k, v) \<in> set ps"
  using map_of_SomeD[of "rev ps" k v] by (simp add: map_of_dict_of)



lemma distinct_foldl_dict_set:
  "distinct (map fst d) \<Longrightarrow> distinct (map fst (foldl (\<lambda>d (k, v). dict_set d k v) d ps))"
proof (induction ps arbitrary: d)
  case Nil
  then show ?case by simp
next
  case (Cons p ps)
  obtain k0 v0 where p: "p = (k0, v0)" by (cases p)
  show ?case using Cons.IH[OF distinct_dict_set[OF Cons.prems, of k0 v0]] by (simp add: p)
qed

lemma distinct_dict_of: "distinct (map fst (dict_of ps))"
  unfolding dict_of_def by (rule distinct_foldl_dict_set) simp

lemma filter_sym_yields:
  "filter_sym lang c_syms man_syms name obj = Inr (ys, ds) \<Longrightarrow>
     ys = [] \<or> (\<exists>hdrs. ys = [(name, hdrs)] \<and> hdrs \<noteq> {})"
  by (auto simp: filter_sym_def salvage_c_def salvage_man_def shadow_set_def shadowed_def
      split: option.splits sum.splits if_splits c_table.splits)



lemma filter_syms_Cons:
  assumes "filter_syms lang c_syms man_syms heap ((name, a) # items) = Inr (pairs, err)"
  obtains ys ds ys' ds' where
    "filter_sym lang c_syms man_syms name (heap ! a) = Inr (ys, ds)"
    "filter_syms lang c_syms man_syms heap items = Inr (ys', ds')"
    "pairs = ys @ ys'" "err = ds @ ds'"
  using assms by (auto split: sum.splits)


lemma filter_syms_origin:
  "filter_syms lang c_syms man_syms heap items = Inr (pairs, err) \<Longrightarrow>
   (k, v) \<in> set pairs \<Longrightarrow>
   \<exists>a ds. (k, a) \<in> set items
      \<and> filter_sym lang c_syms man_syms k (heap ! a) = Inr ([(k, v)], ds)"
proof (induction items arbitrary: pairs err)
  case Nil
  then show ?case by simp
next
  case (Cons item items)
  obtain name0 a0 where item: "item = (name0, a0)" by (cases item)
  obtain ys0 ds0 ys' ds' where s:
    "filter_sym lang c_syms man_syms name0 (heap ! a0) = Inr (ys0, ds0)"
    "filter_syms lang c_syms man_syms heap items = Inr (ys', ds')"
    "pairs = ys0 @ ys'" "err = ds0 @ ds'"
    using Cons.prems(1) unfolding item by (rule filter_syms_Cons)
  from Cons.prems(2) s(3) consider "(k, v) \<in> set ys0" | "(k, v) \<in> set ys'" by auto
  then show ?case
  proof cases
    case 1
    then have "ys0 = [(k, v)]" "k = name0" using filter_sym_yields[OF s(1)] by auto
    then show ?thesis using s(1) item by auto
  next
    case 2
    from Cons.IH[OF s(2) this] show ?thesis by auto
  qed
qed











section \<open>Properties of the final indexes\<close>

lemma vals_ok_dict_set: "vals_ok d \<Longrightarrow> v \<noteq> {} \<Longrightarrow> vals_ok (dict_set d k v)"
  by (simp add: vals_ok_def map_of_dict_set)

lemma parse_man_nonempty:
  "Inr (f, s) \<in> set (parse_man E path inc text) \<Longrightarrow> s \<noteq> {}"
proof (induction "text" arbitrary: inc)
  case Nil
  then show ?case by simp
next
  case (Cons line "text")
  then show ?case
    by (simp add: Let_def split: option.splits if_splits) blast+
qed

lemma man_events_nonempty:
  "Inr (f, s) \<in> set (man_events E pages) \<Longrightarrow> s \<noteq> {}"
  by (auto simp: man_events_def dest: parse_man_nonempty)

lemma man_event_vals_ok:
  "vals_ok (fst st) \<Longrightarrow> (\<forall>f s. ev = Inr (f, s) \<longrightarrow> s \<noteq> {}) \<Longrightarrow>
   vals_ok (fst (man_event st ev))"
  by (cases st; cases ev)
     (auto simp: man_event_def man_add_def vals_ok_dict_set split: option.splits)

lemma foldl_man_event_vals_ok:
  "vals_ok (fst st) \<Longrightarrow> (\<forall>f s. Inr (f, s) \<in> set evs \<longrightarrow> s \<noteq> {}) \<Longrightarrow>
   vals_ok (fst (foldl man_event st evs))"
proof (induction evs arbitrary: st)
  case Nil
  then show ?case by simp
next
  case (Cons ev evs)
  have "vals_ok (fst (man_event st ev))"
    using Cons.prems by (intro man_event_vals_ok) auto
  then show ?case using Cons.IH[of "man_event st ev"] Cons.prems(2) by simp
qed

lemma load_mans_vals_ok: "vals_ok (fst (load_mans E pages))"
  unfolding load_mans_def man_loop_def
  by (rule foldl_man_event_vals_ok) (auto simp: vals_ok_def dest: man_events_nonempty)

lemma dict_items_SomeD:
  "(k, v) \<in> set (dict_items ord d) \<Longrightarrow> map_of d k = Some v"
  by (auto simp: dict_items_def map_filter_def)

lemma filter_syms_vals_ok:
  assumes "filter_syms lang c_syms man_syms heap items = Inr (pairs, err)"
  shows "vals_ok (dict_of pairs)"
  unfolding vals_ok_def
proof (intro allI impI)
  fix k v assume "map_of (dict_of pairs) k = Some v"
  then have "(k, v) \<in> set pairs" by (rule dict_of_SomeD)
  from filter_syms_origin[OF assms this] obtain a ds where
    "filter_sym lang c_syms man_syms k (heap ! a) = Inr ([(k, v)], ds)" by blast
  from filter_sym_yields[OF this] show "v \<noteq> {}" by simp
qed

lemma shadow_set_nonempty: "hdrs \<noteq> {} \<Longrightarrow> shadow_set hdrs \<noteq> {}"
  by (simp add: shadow_set_def)

lemma merge_man_vals_ok:
  "vals_ok (fst tabs) \<Longrightarrow> vals_ok (snd tabs) \<Longrightarrow> snd item \<noteq> {} \<Longrightarrow>
   vals_ok (fst (merge_man tabs item)) \<and> vals_ok (snd (merge_man tabs item))"
  by (cases tabs; cases item)
     (simp add: merge_man_def vals_ok_dict_set shadow_set_nonempty)

lemma merge_man_distinct:
  "distinct (map fst (fst tabs)) \<Longrightarrow> distinct (map fst (snd tabs)) \<Longrightarrow>
   distinct (map fst (fst (merge_man tabs item)))
   \<and> distinct (map fst (snd (merge_man tabs item)))"
  by (cases tabs; cases item) (simp add: merge_man_def distinct_dict_set)

lemma foldl_merge_man_inv:
  "vals_ok (fst tabs) \<Longrightarrow> vals_ok (snd tabs) \<Longrightarrow>
   distinct (map fst (fst tabs)) \<Longrightarrow> distinct (map fst (snd tabs)) \<Longrightarrow>
   (\<forall>item \<in> set items. snd item \<noteq> {}) \<Longrightarrow>
   vals_ok (fst (foldl merge_man tabs items)) \<and> vals_ok (snd (foldl merge_man tabs items))
   \<and> distinct (map fst (fst (foldl merge_man tabs items)))
   \<and> distinct (map fst (snd (foldl merge_man tabs items)))"
proof (induction items arbitrary: tabs)
  case Nil
  then show ?case by simp
next
  case (Cons item items)
  have "snd item \<noteq> {}" using Cons.prems(5) by simp
  from merge_man_vals_ok[OF Cons.prems(1,2) this] merge_man_distinct[OF Cons.prems(3,4), of item]
  show ?case using Cons.IH[of "merge_man tabs item"] Cons.prems(5) by simp
qed

lemma merge_mans_inv:
  assumes "vals_ok man_syms" "vals_ok c_syms" "vals_ok cpp_syms"
    "distinct (map fst c_syms)" "distinct (map fst cpp_syms)"
  shows "vals_ok (fst (merge_mans E man_syms (c_syms, cpp_syms)))
       \<and> vals_ok (snd (merge_mans E man_syms (c_syms, cpp_syms)))
       \<and> distinct (map fst (fst (merge_mans E man_syms (c_syms, cpp_syms))))
       \<and> distinct (map fst (snd (merge_mans E man_syms (c_syms, cpp_syms))))"
proof -
  have "\<forall>item \<in> set (dict_items (keys_order E) man_syms). snd item \<noteq> {}"
  proof
    fix item assume "item \<in> set (dict_items (keys_order E) man_syms)"
    then have "map_of man_syms (fst item) = Some (snd item)"
      using dict_items_SomeD[of "fst item" "snd item"] by simp
    then show "snd item \<noteq> {}" using assms(1) unfolding vals_ok_def by blast
  qed
  then show ?thesis
    unfolding merge_mans_def using foldl_merge_man_inv[of "(c_syms, cpp_syms)"] assms by simp
qed

lemma map_of_with_headers:
  "map_of (with_headers d) k = map_option Headers (map_of d k)"
  by (induction d) (auto simp: with_headers_def)

lemma fst_with_headers: "map fst (with_headers d) = map fst d"
  by (induction d) (auto simp: with_headers_def)

lemma redirects_ok_with_headers: "vals_ok d \<Longrightarrow> redirects_ok (with_headers d)"
  by (auto simp: redirects_ok_def vals_ok_def map_of_with_headers)

lemma redirects_ok_Headers:
  assumes "redirects_ok d" "map_of d k = Some (Headers hdrs)"
  shows "hdrs \<noteq> {}"
  using assms(1)[unfolded redirects_ok_def, rule_format, OF assms(2)] by simp

lemma redirects_ok_Redirect:
  assumes "redirects_ok d" "map_of d k = Some (Redirect c)"
  shows "\<exists>hdrs. map_of d c = Some (Headers hdrs) \<and> hdrs \<noteq> {}"
  using assms(1)[unfolded redirects_ok_def, rule_format, OF assms(2)] by simp

lemma decanonicalize_inv:
  assumes r: "redirects_ok (fst st)" and d: "distinct (map fst (fst st))"
    and t: "\<exists>hdrs. map_of (fst st) (fst item) = Some (Headers hdrs) \<and> hdrs \<noteq> {}"
  shows "redirects_ok (fst (decanonicalize st item))
       \<and> distinct (map fst (fst (decanonicalize st item)))"
proof -
  obtain cpp_syms err where st: "st = (cpp_syms, err)" by (cases st)
  obtain name v where item: "item = (name, v)" by (cases item)
  obtain hdrs where h: "map_of cpp_syms name = Some (Headers hdrs)" "hdrs \<noteq> {}"
    using t st item by auto
  show ?thesis
  proof (cases "rindex name ''::''")
    case None
    then show ?thesis using r d by (simp add: st item decanonicalize_def)
  next
    case (Some i)
    let ?short = "drop (i + 2) name"
    show ?thesis
    proof (cases "map_of cpp_syms ?short")
      case (Some w)
      then show ?thesis using r d \<open>rindex name ''::'' = Some i\<close>
        by (simp add: st item decanonicalize_def Let_def)
    next
      case None
      have eq: "fst (decanonicalize st item) = dict_set cpp_syms ?short (Redirect name)"
        using None \<open>rindex name ''::'' = Some i\<close>
        by (simp add: st item decanonicalize_def Let_def)
      have ok: "redirects_ok (dict_set cpp_syms ?short (Redirect name))"
        unfolding redirects_ok_def map_of_dict_set
      proof (intro allI impI)
        fix k w
        assume a: "((map_of cpp_syms)(?short \<mapsto> Redirect name)) k = Some w"
        have nm: "((map_of cpp_syms)(?short \<mapsto> Redirect name)) name = Some (Headers hdrs)"
          using h None by auto
        show "case w of
                Headers hdrs \<Rightarrow> hdrs \<noteq> {}
              | Redirect canonical \<Rightarrow>
                  \<exists>hdrs. ((map_of cpp_syms)(?short \<mapsto> Redirect name)) canonical
                            = Some (Headers hdrs) \<and> hdrs \<noteq> {}"
        proof (cases "k = ?short")
          case True
          then have "w = Redirect name" using a by simp
          then show ?thesis using nm h(2) by simp
        next
          case False
          then have old: "map_of cpp_syms k = Some w" using a by simp
          show ?thesis
          proof (cases w)
            case (Headers x)
            then show ?thesis using redirects_ok_Headers[of cpp_syms k x] r old by (simp add: st)
          next
            case (Redirect c)
            then obtain hc where hc: "map_of cpp_syms c = Some (Headers hc)" "hc \<noteq> {}"
              using redirects_ok_Redirect[of cpp_syms k c] r old by (auto simp: st)
            then have "c \<noteq> ?short" using None by auto
            then show ?thesis using Redirect hc by simp
          qed
        qed
      qed
      show ?thesis unfolding eq using ok d by (simp add: st distinct_dict_set)
    qed
  qed
qed

lemma foldl_decanonicalize_inv:
  "redirects_ok (fst st) \<Longrightarrow> distinct (map fst (fst st)) \<Longrightarrow>
   (\<forall>item \<in> set items. \<exists>hdrs. map_of (fst st) (fst item) = Some (Headers hdrs) \<and> hdrs \<noteq> {}) \<Longrightarrow>
   redirects_ok (fst (foldl decanonicalize st items))
   \<and> distinct (map fst (fst (foldl decanonicalize st items)))"
proof (induction items arbitrary: st)
  case Nil
  then show ?case by simp
next
  case (Cons item items)
  have t: "\<exists>hdrs. map_of (fst st) (fst item) = Some (Headers hdrs) \<and> hdrs \<noteq> {}"
    using Cons.prems(3) by simp
  have inv: "redirects_ok (fst (decanonicalize st item))"
    "distinct (map fst (fst (decanonicalize st item)))"
    using decanonicalize_inv[OF Cons.prems(1,2) t] by auto
  have rest: "\<forall>item' \<in> set items. \<exists>hdrs.
      map_of (fst (decanonicalize st item)) (fst item') = Some (Headers hdrs) \<and> hdrs \<noteq> {}"
  proof
    fix item' assume "item' \<in> set items"
    then obtain hdrs where "map_of (fst st) (fst item') = Some (Headers hdrs)" "hdrs \<noteq> {}"
      using Cons.prems(3) by auto
    then show "\<exists>hdrs. map_of (fst (decanonicalize st item)) (fst item') = Some (Headers hdrs)
        \<and> hdrs \<noteq> {}"
      using decanonicalize_keeps[of st "fst item'" "Headers hdrs" item] by blast
  qed
  show ?case using Cons.IH[OF inv rest] by simp
qed

lemma decanonicalize_all_inv:
  assumes "vals_ok cpp_syms" "distinct (map fst cpp_syms)"
  shows "redirects_ok (fst (decanonicalize_all E (with_headers cpp_syms, err)))
       \<and> distinct (map fst (fst (decanonicalize_all E (with_headers cpp_syms, err))))"
  unfolding decanonicalize_all_def
proof (rule foldl_decanonicalize_inv)
  show "redirects_ok (fst (with_headers cpp_syms, err))"
    using assms(1) by (simp add: redirects_ok_with_headers)
  show "distinct (map fst (fst (with_headers cpp_syms, err)))"
    using assms(2) by (simp add: fst_with_headers)
  show "\<forall>item\<in>set (dict_items (keys_order E) (fst (with_headers cpp_syms, err))).
       \<exists>hdrs. map_of (fst (with_headers cpp_syms, err)) (fst item) = Some (Headers hdrs)
          \<and> hdrs \<noteq> {}"
  proof
    fix item assume "item \<in> set (dict_items (keys_order E) (fst (with_headers cpp_syms, err)))"
    then have "map_of (with_headers cpp_syms) (fst item) = Some (snd item)"
      using dict_items_SomeD[of "fst item" "snd item"] by simp
    then obtain hdrs where "map_of cpp_syms (fst item) = Some hdrs" "snd item = Headers hdrs"
      by (auto simp: map_of_with_headers)
    then show "\<exists>hdrs. map_of (fst (with_headers cpp_syms, err)) (fst item) = Some (Headers hdrs)
          \<and> hdrs \<noteq> {}"
      using assms(1) by (auto simp: map_of_with_headers vals_ok_def)
  qed
qed

lemma redirects_ok_index_ok:
  assumes "redirects_ok d" "distinct (map fst d)"
  shows "index_ok d"
  unfolding index_ok_def
proof (intro ballI, clarify)
  fix name v assume "(name, v) \<in> set d"
  then have m: "map_of d name = Some v" using assms(2) by simp
  show "case v of
          Headers hdrs \<Rightarrow> hdrs \<noteq> {}
        | Redirect canonical \<Rightarrow>
            (case map_of d canonical of
               Some (Headers hdrs) \<Rightarrow> hdrs \<noteq> {}
             | Some (Redirect other) \<Rightarrow> False
             | None \<Rightarrow> False)"
  proof (cases v)
    case (Headers x)
    then show ?thesis using redirects_ok_Headers[OF assms(1), of name x] m by simp
  next
    case (Redirect c)
    then obtain hc where "map_of d c = Some (Headers hc)" "hc \<noteq> {}"
      using redirects_ok_Redirect[OF assms(1), of name c] m by auto
    then show ?thesis using Redirect by simp
  qed
qed

lemma dict_items_subset: "set (dict_items ord d) \<subseteq> set d"
  using dict_items_SomeD[of _ _ ord d] by (auto dest: map_of_SomeD)

lemma index_ok_with_headers:
  assumes "vals_ok d" "distinct (map fst d)"
  shows "index_ok (with_headers d)"
  using redirects_ok_index_ok[OF redirects_ok_with_headers[OF assms(1)]] assms(2)
  by (simp add: fst_with_headers)

text \<open>
  Claim C1. When \<^verbatim>\<open>main\<close> reaches the serializer, each of the two tables it hands
  over has pairwise different names, and every entry holds either a header set that is
  not empty or the name of an entry of the same table that holds such a header set; so
  no redirect leads to a redirect. The lists \<^verbatim>\<open>syms.items()\<close> consist of entries of
  the tables.
\<close>

theorem final_indexes_resolve:
  assumes "final_indexes E inp = Inr (c_syms, cpp_syms, err)"
  shows "index_ok c_syms \<and> index_ok cpp_syms
       \<and> distinct (map fst c_syms) \<and> distinct (map fst cpp_syms)
       \<and> set (dict_items (keys_order E) c_syms) \<subseteq> set c_syms
       \<and> set (dict_items (keys_order E) cpp_syms) \<subseteq> set cpp_syms"
proof -
  define htmldir where "htmldir = cppdir inp @ ''/reference/en.cppreference.com/w''"
  obtain man_syms err0 where m: "load_mans E (man_pages inp) = (man_syms, err0)"
    by (cases "load_mans E (man_pages inp)")
  have vm: "vals_ok man_syms" using load_mans_vals_ok[of E "man_pages inp"] m by simp
  obtain st where st: "load_catalogs E (xml_c inp) (xml_cpp inp) = Inr st"
    using assms m by (cases "load_catalogs E (xml_c inp) (xml_cpp inp)")
      (simp_all add: final_indexes_def)
  obtain heap err1 where
    r: "resolve_links E htmldir (st_links st) (st_heap st, err0) = (heap, err1)"
    by (cases "resolve_links E htmldir (st_links st) (st_heap st, err0)")
  let ?fc = "filter_syms ''C'' (Objects (st_c_syms st)) man_syms heap
                  (dict_items (keys_order E) (st_c_syms st))"
  obtain c_pairs c_err where fc: "?fc = Inr (c_pairs, c_err)"
    using assms m st r by (cases ?fc) (auto simp: final_indexes_def htmldir_def)
  let ?fcpp = "filter_syms ''C++'' (Sets (dict_of c_pairs)) man_syms heap
                       (dict_items (keys_order E) (st_cpp_syms st))"
  obtain cpp_pairs cpp_err where fcpp: "?fcpp = Inr (cpp_pairs, cpp_err)"
    using assms m st r fc by (cases ?fcpp) (auto simp: final_indexes_def htmldir_def)
  obtain c1 cpp1 where
    mm: "merge_mans E man_syms (dict_of c_pairs, dict_of cpp_pairs) = (c1, cpp1)"
    by (cases "merge_mans E man_syms (dict_of c_pairs, dict_of cpp_pairs)")
  obtain cpp2 err2 where
    dd: "decanonicalize_all E (with_headers cpp1, err1 @ c_err @ cpp_err) = (cpp2, err2)"
    by (cases "decanonicalize_all E (with_headers cpp1, err1 @ c_err @ cpp_err)")
  have res: "c_syms = with_headers c1" "cpp_syms = cpp2"
    using assms m st r fc fcpp mm dd by (simp_all add: final_indexes_def htmldir_def)
  have inv: "vals_ok c1" "vals_ok cpp1" "distinct (map fst c1)" "distinct (map fst cpp1)"
    using merge_mans_inv[OF vm filter_syms_vals_ok[OF fc] filter_syms_vals_ok[OF fcpp]
        distinct_dict_of distinct_dict_of, of E] mm by simp_all
  have c: "index_ok c_syms" "distinct (map fst c_syms)"
    using index_ok_with_headers[OF inv(1,3)] inv(3) by (simp_all add: res fst_with_headers)
  have "redirects_ok cpp2 \<and> distinct (map fst cpp2)"
    using decanonicalize_all_inv[OF inv(2,4), of E "err1 @ c_err @ cpp_err"] dd by simp
  then have cpp: "index_ok cpp_syms" "distinct (map fst cpp_syms)"
    using redirects_ok_index_ok by (simp_all add: res)
  show ?thesis using c cpp dict_items_subset by blast
qed

lemma example_load_mans:
  "load_mans example_env (man_pages example_inputs) = ([(''fstat'', {''sys/stat.h''})], [])"
  by (simp add: example_env_def example_inputs_def load_mans_def man_events_def man_loop_def
      man_event_def man_add_def add_include_def startswith_def dict_set_def Let_def)

lemma example_load_catalogs:
  "load_catalogs example_env (xml_c example_inputs) (xml_cpp example_inputs)
   = Inr \<lparr>st_heap = [\<lparr>sym_name = ''std::printf'', sym_type = ''function'', sym_alias = None,
                       sym_link = Some ''cpp/io/c/fprintf'', sym_header = None\<rparr>],
          st_links = [(Some ''cpp/io/c/fprintf'', [0])], st_c_syms = [],
          st_cpp_syms = [(''std::printf'', 0)]\<rparr>"
  by (simp add: example_env_def example_inputs_def load_catalogs_def empty_catalog_def
      load_cpp_node_def resolve_alias_def add_backlink_def links_add_def dict_values_def
      dict_items_def map_filter_def startswith_def dict_set_def Let_def)

lemma example_resolve_links:
  "resolve_links example_env (cppdir example_inputs @ ''/reference/en.cppreference.com/w'')
     [(Some ''cpp/io/c/fprintf'', [0])]
     ([\<lparr>sym_name = ''std::printf'', sym_type = ''function'', sym_alias = None,
        sym_link = Some ''cpp/io/c/fprintf'', sym_header = None\<rparr>], [])
   = ([\<lparr>sym_name = ''std::printf'', sym_type = ''function'', sym_alias = None,
        sym_link = Some ''cpp/io/c/fprintf'', sym_header = Some ''cstdio''\<rparr>], [])"
  by (simp add: example_env_def example_inputs_def resolve_links_def resolve_link_def
      set_header_def pystr_def dict_items_def map_filter_def startswith_def Let_def)

lemma example_filter_cpp:
  "filter_syms ''C++'' (Sets []) [(''fstat'', {''sys/stat.h''})]
     [\<lparr>sym_name = ''std::printf'', sym_type = ''function'', sym_alias = None,
        sym_link = Some ''cpp/io/c/fprintf'', sym_header = Some ''cstdio''\<rparr>]
     [(''std::printf'', 0)]
   = Inr ([(''std::printf'', {''cstdio''})], [])"
  by (simp add: filter_sym_def header_of_def)

lemma example_merge_mans:
  "merge_mans example_env [(''fstat'', {''sys/stat.h''})] ([], [(''std::printf'', {''cstdio''})])
   = ([(''fstat'', {''sys/stat.h''})],
      [(''std::printf'', {''cstdio''}), (''fstat'', {''sys/stat.h''})])"
  by (simp add: example_env_def merge_mans_def merge_man_def dict_items_def map_filter_def
      dict_set_def shadow_set_def shadow_sys_stat)

lemma example_decanonicalize_all:
  "decanonicalize_all example_env
     ([(''std::printf'', Headers {''cstdio''}), (''fstat'', Headers {''sys/stat.h''})], [])
   = ([(''std::printf'', Headers {''cstdio''}), (''fstat'', Headers {''sys/stat.h''}),
       (''printf'', Redirect ''std::printf'')], [])"
  by (simp add: example_env_def decanonicalize_all_def decanonicalize_def
      dict_items_def map_filter_def dict_set_def startswith_def Let_def)

lemma example_keys_order: "keys_order example_env ks = ks"
  by (simp add: example_env_def)

lemma example_final_indexes:
  "final_indexes example_env example_inputs
   = Inr ([(''fstat'', Headers {''sys/stat.h''})],
          [(''std::printf'', Headers {''cstdio''}), (''fstat'', Headers {''sys/stat.h''}),
           (''printf'', Redirect ''std::printf'')],
          [])"
  unfolding final_indexes_def
  by (simp add: example_load_mans example_load_catalogs example_resolve_links
      dict_items_def map_filter_def dict_of_def filter_sym_def header_of_def dict_set_def
      example_merge_mans example_decanonicalize_all example_keys_order with_headers_def)

theorem final_indexes_resolve_witness:
  "final_indexes example_env example_inputs
     = Inr ([(''fstat'', Headers {''sys/stat.h''})],
          [(''std::printf'', Headers {''cstdio''}), (''fstat'', Headers {''sys/stat.h''}),
           (''printf'', Redirect ''std::printf'')],
          [])
   \<and> index_ok [(''fstat'', Headers {''sys/stat.h''})]
   \<and> index_ok [(''std::printf'', Headers {''cstdio''}), (''fstat'', Headers {''sys/stat.h''}),
           (''printf'', Redirect ''std::printf'')]"
proof -
  note r = final_indexes_resolve[OF example_final_indexes]
  from r have a: "index_ok [(''fstat'', Headers {''sys/stat.h''})]" by (rule conjunct1)
  from r have b: "index_ok [(''std::printf'', Headers {''cstdio''}),
           (''fstat'', Headers {''sys/stat.h''}), (''printf'', Redirect ''std::printf'')]"
    by (rule conjunct1[OF conjunct2])
  show ?thesis using example_final_indexes a b by (intro conjI)
qed

end
